theory Spec2Isabelle
  imports Main
begin

section \<open>Voice calendar assistant: transcript extraction and session controller\<close>

text \<open>
  A shallow embedding of \<^verbatim>\<open>src/app.tsx\<close>. The file holds two React components,
  \<^verbatim>\<open>VoiceCalendarAssistant\<close> (lines 36-272, with the extractor
  \<^verbatim>\<open>processNaturalLanguage\<close> of lines 18-34) and \<^verbatim>\<open>App\<close> (lines 285-477, with the
  extractor \<^verbatim>\<open>processTranscript\<close> of lines 380-392).

  JavaScript strings are modelled as \<open>string\<close>: one \<open>char\<close> stands for one code unit.
  The value \<^verbatim>\<open>undefined\<close> of a draft field is \<open>None\<close>.
\<close>

subsection \<open>JavaScript built-ins used by the extractors\<close>

text \<open>
  \<^verbatim>\<open>s.split(sep)\<close> for a one-character separator: the pieces between the separators,
  empty pieces kept, so the result is never the empty array
  (\<^verbatim>\<open>"".split(' ')\<close> is \<^verbatim>\<open>[""]\<close>, \<^verbatim>\<open>"a  b".split(' ')\<close> is \<^verbatim>\<open>["a", "", "b"]\<close>).
\<close>

fun split :: "char \<Rightarrow> string \<Rightarrow> string list" where
  "split sep [] = [[]]"
| "split sep (c # cs) =
     (if c = sep then [] # split sep cs
      else (case split sep cs of [] \<Rightarrow> [[c]] | w # ws \<Rightarrow> (c # w) # ws))"

text \<open>\<^verbatim>\<open>xs.indexOf(x)\<close>: the index of the first element equal to \<open>x\<close>, or \<open>-1\<close>.\<close>

fun indexOf :: "'a list \<Rightarrow> 'a \<Rightarrow> int" where
  "indexOf [] x = - 1"
| "indexOf (y # ys) x =
     (if y = x then 0
      else (let i = indexOf ys x in if i = - 1 then - 1 else i + 1))"

text \<open>\<^verbatim>\<open>xs[i]\<close>: an array read; out of range it yields \<^verbatim>\<open>undefined\<close> and does not raise.\<close>

definition elem :: "'a list \<Rightarrow> int \<Rightarrow> 'a option" where
  "elem xs i = (if 0 \<le> i \<and> nat i < length xs then Some (xs ! nat i) else None)"

text \<open>
  \<^verbatim>\<open>new Date().toISOString().split('T')[0]\<close>: the clock is the parameter \<open>now\<close>, the
  ISO timestamp that \<^verbatim>\<open>new Date().toISOString()\<close> returns at the moment of the call
  (\<^verbatim>\<open>YYYY-MM-DDTHH:mm:ss.sssZ\<close>).
\<close>

definition isoDate :: "string \<Rightarrow> string option" where
  "isoDate stamp = elem (split (CHR ''T'') stamp) 0"

subsection \<open>The draft entry and the keyword-anchored extractor\<close>

record draft =
  date :: "string option"
  time :: "string option"
  "text" :: string

text \<open>\<^verbatim>\<open>processTranscript\<close> (lines 380-392).\<close>

definition processTranscript :: "string \<Rightarrow> string \<Rightarrow> draft" where
  "processTranscript now transcript =
     (let words = split (CHR '' '') transcript;
          dateIndex = indexOf words ''on'';
          timeIndex = indexOf words ''at''
      in \<lparr> date = (if dateIndex \<noteq> - 1 then elem words (dateIndex + 1) else isoDate now),
           time = (if timeIndex \<noteq> - 1 then elem words (timeIndex + 1) else Some ''12:00''),
           text = transcript \<rparr>)"

subsection \<open>The pattern-anchored extractor\<close>

text \<open>\<^verbatim>\<open>\d\<close> of a JavaScript regular expression: the ten ASCII digits.\<close>

definition digit :: "char \<Rightarrow> bool" where
  "digit c = (c \<in> set ''0123456789'')"

text \<open>
  The regular expression \<^verbatim>\<open>/(\d{1,2}):(\d{2})/\<close> tried at the start of a string: the
  greedy \<^verbatim>\<open>\d{1,2}\<close> takes two digits first and backtracks to one. The result is the
  whole match (\<^verbatim>\<open>timeMatch[0]\<close>).
\<close>

fun timeRegex_at :: "string \<Rightarrow> string option" where
  "timeRegex_at (a # b # c # d # e # rest) =
     (if digit a \<and> digit b \<and> c = CHR '':'' \<and> digit d \<and> digit e then Some [a, b, c, d, e]
      else if digit a \<and> b = CHR '':'' \<and> digit c \<and> digit d then Some [a, b, c, d]
      else None)"
| "timeRegex_at [a, b, c, d] =
     (if digit a \<and> b = CHR '':'' \<and> digit c \<and> digit d then Some [a, b, c, d] else None)"
| "timeRegex_at _ = None"

text \<open>\<^verbatim>\<open>text.match(timeRegex)\<close>: the match at the leftmost position that has one.\<close>

fun match_timeRegex :: "string \<Rightarrow> string option" where
  "match_timeRegex [] = None"
| "match_timeRegex (c # cs) =
     (case timeRegex_at (c # cs) of Some m \<Rightarrow> Some m | None \<Rightarrow> match_timeRegex cs)"

text \<open>
  \<^verbatim>\<open>processNaturalLanguage\<close> (lines 18-34). The date-phrase recogniser
  \<^verbatim>\<open>dateParser.parse\<close> belongs to the library \<^verbatim>\<open>natural\<close>, which is not part of the
  repository: it is the parameter \<open>dateParser\<close>, giving \<open>None\<close> for a falsy result and
  otherwise the \<^verbatim>\<open>toISOString()\<close> rendering of the date it found. The tokens of the
  lower-cased text are computed and never read, so they are left out.
\<close>

definition processNaturalLanguage :: "(string \<Rightarrow> string option) \<Rightarrow> string \<Rightarrow> string \<Rightarrow> draft" where
  "processNaturalLanguage dateParser now txt =
     (let d = dateParser txt;
          time0 = ''12:00'';
          timeMatch = match_timeRegex txt;
          time1 = (case timeMatch of Some m \<Rightarrow> m | None \<Rightarrow> time0)
      in \<lparr> date = (case d of Some stamp \<Rightarrow> isoDate stamp | None \<Rightarrow> isoDate now),
           time = Some time1,
           text = txt \<rparr>)"

text \<open>
  The specification's wording of the time pattern, \<^verbatim>\<open>H:MM\<close> or \<^verbatim>\<open>HH:MM\<close>, as a
  predicate on a substring.
\<close>

fun is_time :: "string \<Rightarrow> bool" where
  "is_time [h, c, m1, m2] = (digit h \<and> c = CHR '':'' \<and> digit m1 \<and> digit m2)"
| "is_time [h1, h2, c, m1, m2] = (digit h1 \<and> digit h2 \<and> c = CHR '':'' \<and> digit m1 \<and> digit m2)"
| "is_time _ = False"

subsection \<open>The session controller: state, external calls, suspended handlers\<close>

text \<open>
  The React state of a component (the \<^verbatim>\<open>useState\<close> hooks of lines 37-45 and 286-291).
  \<^verbatim>\<open>App\<close> has no \<^verbatim>\<open>events\<close> hook: there the field stays at its initial value.
  \<^verbatim>\<open>selectedDate\<close> is read by no handler and is left out.
\<close>

record ('r, 'e) state =
  isListening :: bool
  transcript :: string
  reminders :: "'r list"
  aiResponse :: string
  isLoading :: bool
  events :: "'e list"

text \<open>
  A \<^verbatim>\<open>keydown\<close> event: the handler reads \<^verbatim>\<open>event.code\<close>; \<open>inputFocused\<close> records
  whether the event comes from a focused text input.
\<close>

record key_event =
  code :: string
  inputFocused :: bool

text \<open>
  The calls a handler makes on its collaborators: the speech recogniser, the reminder
  store (\<^verbatim>\<open>@/lib/calendarApi\<close>), the AI responder (\<^verbatim>\<open>@/lib/aiApi\<close>) and the event
  store (\<^verbatim>\<open>@/lib/googleCalendarApi\<close>). Their code is not in \<^verbatim>\<open>src/app.tsx\<close>, so a
  call is recorded, and the promise it returns settles later with a reply that the
  environment chooses.
\<close>

datatype call =
    Recognition_start
  | Recognition_stop
  | AddReminder draft
  | UpdateReminder string string
  | DeleteReminder string
  | GetReminders
  | GetAIResponse string
  | AddEvent draft
  | UpdateEvent string string
  | DeleteEvent string
  | GetEvents

datatype ('r, 'e) reply =
    Rejected
  | Resolved
  | ResolvedText string
  | ResolvedReminders "'r list"
  | ResolvedEvents "'e list"

text \<open>
  An \<^verbatim>\<open>async\<close> handler runs until its next \<^verbatim>\<open>await\<close> and is then suspended until the
  awaited promise settles; other events are handled in between. A \<open>task\<close> is a suspended
  handler, named by the handler and the call it awaits:
  \<^item> \<open>LoadReminders\<close>, \<open>LoadEvents\<close>: \<^verbatim>\<open>loadReminders\<close> at \<^verbatim>\<open>await getReminders()\<close>,
    \<^verbatim>\<open>loadEvents\<close> at \<^verbatim>\<open>await getEvents()\<close>;
  \<^item> \<open>HandleUpdateReminder\<close>, \<open>HandleDeleteReminder\<close>, \<open>HandleUpdateEvent\<close>,
    \<open>HandleDeleteEvent\<close>: the handler at its first \<^verbatim>\<open>await\<close> (the store write);
  \<^item> \<open>App_addReminder t\<close>, \<open>App_getAIResponse\<close>, \<open>App_loadReminders\<close>: \<^verbatim>\<open>handleSubmit\<close> of
    \<^verbatim>\<open>App\<close> (lines 340-363) at its three awaits; \<open>t\<close> is the transcript its closure holds;
  \<^item> \<open>VCA_addEvent t\<close>, \<open>VCA_getAIResponse\<close>, \<open>VCA_loadEvents\<close>: \<^verbatim>\<open>handleSubmit\<close> of
    \<^verbatim>\<open>VoiceCalendarAssistant\<close> (lines 92-115).
\<close>

datatype task =
    LoadReminders
  | LoadEvents
  | HandleUpdateReminder
  | HandleDeleteReminder
  | HandleUpdateEvent
  | HandleDeleteEvent
  | App_addReminder string
  | App_getAIResponse
  | App_loadReminders
  | VCA_addEvent string
  | VCA_getAIResponse
  | VCA_loadEvents

definition failureMessage :: string where
  "failureMessage = ''Sorry, there was an error processing your request.''"

text \<open>
  The \<^verbatim>\<open>catch\<close> and \<^verbatim>\<open>finally\<close> blocks of \<^verbatim>\<open>handleSubmit\<close> (lines 109-114, 357-362);
  \<^verbatim>\<open>console.error\<close> only logs.
\<close>

definition catch_finally :: "('r, 'e) state \<Rightarrow> ('r, 'e) state" where
  "catch_finally u = u\<lparr>aiResponse := failureMessage, isLoading := False\<rparr>"

text \<open>
  \<open>resume t r u\<close>: the suspended handler \<open>t\<close> continues in state \<open>u\<close> when the promise it
  awaits settles with \<open>r\<close>. The result is the new state, the calls made, and the task the
  handler is suspended as next (\<open>None\<close> when it has returned or thrown). A store write may
  resolve with any value, which is dropped. The update and delete handlers have no
  \<^verbatim>\<open>try\<close>: a rejection ends them, and the reload after the write is skipped. After the
  write they end with \<^verbatim>\<open>await loadReminders()\<close> (or \<^verbatim>\<open>loadEvents\<close>) and nothing follows
  it, so they continue as \<open>LoadReminders\<close> (or \<open>LoadEvents\<close>). The result \<open>None\<close> is a
  reply of a kind the awaited call does not return (a list where a text is due).
\<close>

definition resume :: "task \<Rightarrow> ('r, 'e) reply \<Rightarrow> ('r, 'e) state
                \<Rightarrow> (('r, 'e) state \<times> call list \<times> task option) option" where
  "resume t r u =
     (case t of
        LoadReminders \<Rightarrow>
          (case r of Rejected \<Rightarrow> Some (u, [], None)
           | ResolvedReminders fetchedReminders \<Rightarrow>
               Some (u\<lparr>reminders := fetchedReminders\<rparr>, [], None)
           | _ \<Rightarrow> None)
      | LoadEvents \<Rightarrow>
          (case r of Rejected \<Rightarrow> Some (u, [], None)
           | ResolvedEvents fetchedEvents \<Rightarrow> Some (u\<lparr>events := fetchedEvents\<rparr>, [], None)
           | _ \<Rightarrow> None)
      | HandleUpdateReminder \<Rightarrow>
          (case r of Rejected \<Rightarrow> Some (u, [], None)
           | _ \<Rightarrow> Some (u, [GetReminders], Some LoadReminders))
      | HandleDeleteReminder \<Rightarrow>
          (case r of Rejected \<Rightarrow> Some (u, [], None)
           | _ \<Rightarrow> Some (u, [GetReminders], Some LoadReminders))
      | HandleUpdateEvent \<Rightarrow>
          (case r of Rejected \<Rightarrow> Some (u, [], None)
           | _ \<Rightarrow> Some (u, [GetEvents], Some LoadEvents))
      | HandleDeleteEvent \<Rightarrow>
          (case r of Rejected \<Rightarrow> Some (u, [], None)
           | _ \<Rightarrow> Some (u, [GetEvents], Some LoadEvents))
      | App_addReminder heard \<Rightarrow>
          (case r of Rejected \<Rightarrow> Some (catch_finally u, [], None)
           | _ \<Rightarrow> Some (u, [GetAIResponse heard], Some App_getAIResponse))
      | App_getAIResponse \<Rightarrow>
          (case r of Rejected \<Rightarrow> Some (catch_finally u, [], None)
           | ResolvedText aiResp \<Rightarrow>
               Some (u\<lparr>aiResponse := aiResp\<rparr>, [GetReminders], Some App_loadReminders)
           | _ \<Rightarrow> None)
      | App_loadReminders \<Rightarrow>
          (case r of Rejected \<Rightarrow> Some (catch_finally u, [], None)
           | ResolvedReminders fetchedReminders \<Rightarrow>
               Some (u\<lparr>reminders := fetchedReminders, transcript := '''', isLoading := False\<rparr>,
                     [], None)
           | _ \<Rightarrow> None)
      | VCA_addEvent heard \<Rightarrow>
          (case r of Rejected \<Rightarrow> Some (catch_finally u, [], None)
           | _ \<Rightarrow> Some (u, [GetAIResponse heard], Some VCA_getAIResponse))
      | VCA_getAIResponse \<Rightarrow>
          (case r of Rejected \<Rightarrow> Some (catch_finally u, [], None)
           | ResolvedText aiResp \<Rightarrow>
               Some (u\<lparr>aiResponse := aiResp\<rparr>, [GetEvents], Some VCA_loadEvents)
           | _ \<Rightarrow> None)
      | VCA_loadEvents \<Rightarrow>
          (case r of Rejected \<Rightarrow> Some (catch_finally u, [], None)
           | ResolvedEvents fetchedEvents \<Rightarrow>
               Some (u\<lparr>events := fetchedEvents, transcript := '''', isLoading := False\<rparr>,
                     [], None)
           | _ \<Rightarrow> None))"

subsection \<open>The handlers\<close>

text \<open>\<^verbatim>\<open>toggleListening\<close> (lines 83-90, 331-338).\<close>

definition toggleListening :: "('r, 'e) state \<Rightarrow> ('r, 'e) state \<times> call list" where
  "toggleListening u =
     (u\<lparr>isListening := \<not> isListening u\<rparr>,
      [if isListening u then Recognition_stop else Recognition_start])"

text \<open>\<^verbatim>\<open>handleKeyPress\<close> (lines 70-74, 318-322), the listener of \<^verbatim>\<open>keydown\<close> on the window.\<close>

definition handleKeyPress :: "key_event \<Rightarrow> ('r, 'e) state \<Rightarrow> ('r, 'e) state \<times> call list" where
  "handleKeyPress ev u = (if code ev = ''Space'' then toggleListening u else (u, []))"

text \<open>
  \<^verbatim>\<open>handleSubmit\<close> up to its first suspension. In \<^verbatim>\<open>VoiceCalendarAssistant\<close> the
  \<^verbatim>\<open>await\<close> on the extractor's result, which is no promise, continues before any other
  event is handled, so the first suspension is at \<^verbatim>\<open>await addEvent\<close>.
\<close>

definition App_handleSubmit ::
  "string \<Rightarrow> ('r, 'e) state \<Rightarrow> ('r, 'e) state \<times> call list \<times> task" where
  "App_handleSubmit now u =
     (u\<lparr>isLoading := True\<rparr>,
      [AddReminder (processTranscript now (transcript u))],
      App_addReminder (transcript u))"

definition VCA_handleSubmit ::
  "(string \<Rightarrow> string option) \<Rightarrow> string \<Rightarrow> ('r, 'e) state \<Rightarrow> ('r, 'e) state \<times> call list \<times> task" where
  "VCA_handleSubmit dateParser now u =
     (u\<lparr>isLoading := True\<rparr>,
      [AddEvent (processNaturalLanguage dateParser now (transcript u))],
      VCA_addEvent (transcript u))"

subsection \<open>The event loop\<close>

text \<open>
  A configuration: the state of the component, the suspended handlers, and the calls made
  so far, oldest first.
\<close>

record ('r, 'e) config =
  st :: "('r, 'e) state"
  pending :: "task list"
  calls :: "call list"

text \<open>
  The component that is mounted; \<^verbatim>\<open>VoiceCalendarAssistant\<close> comes with the date-phrase
  recogniser its extractor uses.
\<close>

datatype component = App | VoiceCalendarAssistant "string \<Rightarrow> string option"

text \<open>
  The events of the browser: a key press, a click on the listening button, typing into
  the transcript input, a speech result, a click on the submit button (with the clock's
  timestamp at that moment), the edit and delete actions of a list row (with the row's
  id and the form's data), and \<open>Settle i r\<close>: the promise awaited by the \<open>i\<close>-th suspended
  handler settles with \<open>r\<close>.
\<close>

datatype ('r, 'e) event =
    KeyDown key_event
  | ClickToggle
  | InputChange string
  | SpeechResult string
  | ClickSubmit string
  | SubmitEditReminder string string
  | ClickDeleteReminder string
  | SubmitEditEvent string string
  | ClickDeleteEvent string
  | Settle nat "('r, 'e) reply"

text \<open>
  The state after the mount effect (lines 47-67, 295-315): the initial values of the
  hooks, and \<^verbatim>\<open>loadReminders()\<close> started and suspended at \<^verbatim>\<open>await getReminders()\<close>.
  Neither component loads the events on mount.
\<close>

definition mounted :: "('r, 'e) config" where
  "mounted =
     \<lparr> st = \<lparr> isListening = False, transcript = '''', reminders = [], aiResponse = '''',
              isLoading = False, events = [] \<rparr>,
       pending = [LoadReminders],
       calls = [GetReminders] \<rparr>"

text \<open>
  One event. The browser handles one event at a time, and React has rendered the state
  set by one event before the next is delivered, so a handler reads the current state.
  The submit button is rendered with \<^verbatim>\<open>disabled={isLoading}\<close> (lines 160,
  407): a click on it while \<^verbatim>\<open>isLoading\<close> holds reaches no handler. \<^verbatim>\<open>App\<close> renders no
  event rows, so the two event-row actions are not available there (\<open>None\<close>), and
  \<open>Settle i r\<close> is not available when there is no \<open>i\<close>-th suspended handler or \<open>r\<close> is of
  the wrong kind for it.
\<close>

fun step :: "component \<Rightarrow> ('r, 'e) event \<Rightarrow> ('r, 'e) config \<Rightarrow> ('r, 'e) config option" where
  "step cmp (KeyDown ev) c =
     (case handleKeyPress ev (st c) of (u, cs) \<Rightarrow> Some (c\<lparr>st := u, calls := calls c @ cs\<rparr>))"
| "step cmp ClickToggle c =
     (case toggleListening (st c) of (u, cs) \<Rightarrow> Some (c\<lparr>st := u, calls := calls c @ cs\<rparr>))"
| "step cmp (InputChange v) c = Some (c\<lparr>st := (st c)\<lparr>transcript := v\<rparr>\<rparr>)"
| "step cmp (SpeechResult v) c = Some (c\<lparr>st := (st c)\<lparr>transcript := v\<rparr>\<rparr>)"
| "step cmp (ClickSubmit now) c =
     (if isLoading (st c) then Some c
      else (case (case cmp of App \<Rightarrow> App_handleSubmit now (st c)
                   | VoiceCalendarAssistant dateParser \<Rightarrow> VCA_handleSubmit dateParser now (st c))
            of (u, cs, t) \<Rightarrow>
              Some (c\<lparr>st := u, pending := pending c @ [t], calls := calls c @ cs\<rparr>)))"
| "step cmp (SubmitEditReminder rid data) c =
     Some (c\<lparr>pending := pending c @ [HandleUpdateReminder],
             calls := calls c @ [UpdateReminder rid data]\<rparr>)"
| "step cmp (ClickDeleteReminder rid) c =
     Some (c\<lparr>pending := pending c @ [HandleDeleteReminder],
             calls := calls c @ [DeleteReminder rid]\<rparr>)"
| "step cmp (SubmitEditEvent eid data) c =
     (case cmp of App \<Rightarrow> None
      | VoiceCalendarAssistant dateParser \<Rightarrow>
          Some (c\<lparr>pending := pending c @ [HandleUpdateEvent],
                  calls := calls c @ [UpdateEvent eid data]\<rparr>))"
| "step cmp (ClickDeleteEvent eid) c =
     (case cmp of App \<Rightarrow> None
      | VoiceCalendarAssistant dateParser \<Rightarrow>
          Some (c\<lparr>pending := pending c @ [HandleDeleteEvent],
                  calls := calls c @ [DeleteEvent eid]\<rparr>))"
| "step cmp (Settle i r) c =
     (if i < length (pending c) then
        (case resume (pending c ! i) r (st c) of
           None \<Rightarrow> None
         | Some (u, cs, k) \<Rightarrow>
             Some (c\<lparr>st := u,
                     pending := (case k of None \<Rightarrow> take i (pending c) @ drop (Suc i) (pending c)
                                 | Some t \<Rightarrow> (pending c)[i := t]),
                     calls := calls c @ cs\<rparr>))
      else None)"

text \<open>A sequence of events, from a configuration; \<open>None\<close> when one of them is not available.\<close>

fun run :: "component \<Rightarrow> ('r, 'e) event list \<Rightarrow> ('r, 'e) config \<Rightarrow> ('r, 'e) config option" where
  "run cmp [] c = Some c"
| "run cmp (ev # evs) c =
     (case step cmp ev c of None \<Rightarrow> None | Some c' \<Rightarrow> run cmp evs c')"

subsection \<open>Observations on a run\<close>

text \<open>A submit pipeline in flight: a suspended \<^verbatim>\<open>handleSubmit\<close>.\<close>

definition is_submit :: "task \<Rightarrow> bool" where
  "is_submit t =
     (case t of App_addReminder heard \<Rightarrow> True | App_getAIResponse \<Rightarrow> True
      | App_loadReminders \<Rightarrow> True | VCA_addEvent heard \<Rightarrow> True | VCA_getAIResponse \<Rightarrow> True
      | VCA_loadEvents \<Rightarrow> True | _ \<Rightarrow> False)"

text \<open>A submit pipeline whose store-create call has not settled yet.\<close>

definition awaits_create :: "task \<Rightarrow> bool" where
  "awaits_create t =
     (case t of App_addReminder heard \<Rightarrow> True | VCA_addEvent heard \<Rightarrow> True | _ \<Rightarrow> False)"

text \<open>The store-create calls and the AI-query calls among the calls made.\<close>

definition is_create :: "call \<Rightarrow> bool" where
  "is_create x = (case x of AddReminder d \<Rightarrow> True | AddEvent d \<Rightarrow> True | _ \<Rightarrow> False)"

definition is_query :: "call \<Rightarrow> bool" where
  "is_query x = (case x of GetAIResponse heard \<Rightarrow> True | _ \<Rightarrow> False)"

text \<open>
  The submits a run accepts: the clicks on the submit button that reach
  \<^verbatim>\<open>handleSubmit\<close>, that is, those made while \<^verbatim>\<open>isLoading\<close> is false.
\<close>

definition accepts :: "('r, 'e) event \<Rightarrow> ('r, 'e) config \<Rightarrow> nat" where
  "accepts ev c = (case ev of ClickSubmit now \<Rightarrow> (if isLoading (st c) then 0 else 1) | _ \<Rightarrow> 0)"

fun accepted :: "component \<Rightarrow> ('r, 'e) event list \<Rightarrow> ('r, 'e) config \<Rightarrow> nat" where
  "accepted cmp [] c = 0"
| "accepted cmp (ev # evs) c =
     (case step cmp ev c of None \<Rightarrow> 0 | Some c' \<Rightarrow> accepts ev c + accepted cmp evs c')"

text \<open>
  The invariant behind the re-entry guard: \<^verbatim>\<open>isLoading\<close> holds exactly while one submit
  pipeline is in flight, and there is never more than one.
\<close>

definition guard_inv :: "('r, 'e) config \<Rightarrow> bool" where
  "guard_inv c = (length (filter is_submit (pending c)) = (if isLoading (st c) then 1 else 0))"

text \<open>
  The fetches of a run: an event is a successful fetch of the reminders when it settles,
  with a list, a handler suspended at \<^verbatim>\<open>await getReminders()\<close>; likewise for the events.
  \<open>last_reminders cmp evs c xs\<close> is the list of the last successful fetch of the run, and
  \<open>xs\<close> when the run has none.
\<close>

definition awaits_getReminders :: "task \<Rightarrow> bool" where
  "awaits_getReminders t = (case t of LoadReminders \<Rightarrow> True | App_loadReminders \<Rightarrow> True | _ \<Rightarrow> False)"

definition awaits_getEvents :: "task \<Rightarrow> bool" where
  "awaits_getEvents t = (case t of LoadEvents \<Rightarrow> True | VCA_loadEvents \<Rightarrow> True | _ \<Rightarrow> False)"

definition fetch_reminders :: "('r, 'e) event \<Rightarrow> ('r, 'e) config \<Rightarrow> 'r list option" where
  "fetch_reminders ev c =
     (case ev of
        Settle i r \<Rightarrow>
          (case r of
             ResolvedReminders xs \<Rightarrow>
               (if i < length (pending c) \<and> awaits_getReminders (pending c ! i) then Some xs
                else None)
           | _ \<Rightarrow> None)
      | _ \<Rightarrow> None)"

definition fetch_events :: "('r, 'e) event \<Rightarrow> ('r, 'e) config \<Rightarrow> 'e list option" where
  "fetch_events ev c =
     (case ev of
        Settle i r \<Rightarrow>
          (case r of
             ResolvedEvents ys \<Rightarrow>
               (if i < length (pending c) \<and> awaits_getEvents (pending c ! i) then Some ys
                else None)
           | _ \<Rightarrow> None)
      | _ \<Rightarrow> None)"

fun last_reminders ::
  "component \<Rightarrow> ('r, 'e) event list \<Rightarrow> ('r, 'e) config \<Rightarrow> 'r list \<Rightarrow> 'r list" where
  "last_reminders cmp [] c xs = xs"
| "last_reminders cmp (ev # evs) c xs =
     (case step cmp ev c of
        None \<Rightarrow> xs
      | Some c' \<Rightarrow>
          last_reminders cmp evs c' (case fetch_reminders ev c of Some ys \<Rightarrow> ys | None \<Rightarrow> xs))"

fun last_events ::
  "component \<Rightarrow> ('r, 'e) event list \<Rightarrow> ('r, 'e) config \<Rightarrow> 'e list \<Rightarrow> 'e list" where
  "last_events cmp [] c xs = xs"
| "last_events cmp (ev # evs) c xs =
     (case step cmp ev c of
        None \<Rightarrow> xs
      | Some c' \<Rightarrow>
          last_events cmp evs c' (case fetch_events ev c of Some ys \<Rightarrow> ys | None \<Rightarrow> xs))"

subsection \<open>Facts about the built-ins\<close>

lemma split_not_Nil: "split sep s \<noteq> []"
  by (induction s) (auto split: list.splits)

lemma split_first: "elem (split sep s) 0 = Some (takeWhile (\<lambda>c. c \<noteq> sep) s)"
proof (induction s)
  case Nil
  show ?case by (simp add: elem_def)
next
  case (Cons c cs)
  then show ?case
    by (cases "split sep cs") (auto simp: elem_def split_not_Nil)
qed

lemma isoDate_eq: "isoDate stamp = Some (takeWhile (\<lambda>c. c \<noteq> CHR ''T'') stamp)"
  by (simp add: isoDate_def split_first)

lemma indexOf_absent: "x \<notin> set xs \<Longrightarrow> indexOf xs x = - 1"
  by (induction xs) auto

lemma indexOf_first: "x \<notin> set pre \<Longrightarrow> indexOf (pre @ x # rest) x = int (length pre)"
proof (induction pre)
  case Nil
  show ?case by simp
next
  case (Cons p pre)
  then show ?case by (auto simp: Let_def)
qed

lemma processTranscript_text: "text (processTranscript now s) = s"
  by (simp add: processTranscript_def Let_def)

subsection \<open>The keyword-anchored extractor\<close>

text \<open>
  C1, as the code has it. \<^verbatim>\<open>indexOf\<close> finds the first token \<^verbatim>\<open>on\<close> and the first token
  \<^verbatim>\<open>at\<close>. So for an input whose tokens contain \<^verbatim>\<open>on D at T\<close>, where no token before this
  \<^verbatim>\<open>on\<close> is \<^verbatim>\<open>on\<close> and no token before this \<^verbatim>\<open>at\<close> is \<^verbatim>\<open>at\<close> (none of the tokens
  in front, and not \<open>D\<close>), the draft has the date \<open>D\<close>, the time \<open>T\<close> and the verbatim
  input as its text.
\<close>

theorem processTranscript_on_at:
  assumes "split (CHR '' '') s = pre @ [''on'', D, ''at'', T] @ post"
    and "''on'' \<notin> set pre" and "''at'' \<notin> set pre" and "D \<noteq> ''at''"
  shows "processTranscript now s = \<lparr> date = Some D, time = Some T, text = s \<rparr>"
proof -
  let ?ws = "split (CHR '' '') s"
  have w1: "?ws = pre @ ''on'' # (D # ''at'' # T # post)"
    using assms(1) by simp
  have w2: "?ws = (pre @ [''on'', D]) @ ''at'' # (T # post)"
    using assms(1) by simp
  have i1: "indexOf ?ws ''on'' = int (length pre)"
    unfolding w1 using assms(2) by (rule indexOf_first)
  have "''at'' \<notin> set (pre @ [''on'', D])"
    using assms(3,4) by simp
  then have i2: "indexOf ?ws ''at'' = int (length (pre @ [''on'', D]))"
    unfolding w2 by (rule indexOf_first)
  have e1: "elem ?ws (int (length pre) + 1) = Some D"
    unfolding w1 by (simp add: elem_def nth_append nat_add_distrib)
  have e2: "elem ?ws (int (length (pre @ [''on'', D])) + 1) = Some T"
    unfolding w2 by (simp add: elem_def nth_append nat_add_distrib)
  show ?thesis
    unfolding processTranscript_def Let_def i1 i2 e1 e2 by simp
qed

text \<open>
  The example of the specification is an instance:
  \<^verbatim>\<open>remind me to call mom on 2024-06-01 at 15:30\<close>.
\<close>

theorem processTranscript_on_at_witness:
  "split (CHR '' '') ''remind me to call mom on 2024-06-01 at 15:30''
     = [''remind'', ''me'', ''to'', ''call'', ''mom''] @ [''on'', ''2024-06-01'', ''at'', ''15:30''] @ []
   \<and> ''on'' \<notin> set [''remind'', ''me'', ''to'', ''call'', ''mom'']
   \<and> ''at'' \<notin> set [''remind'', ''me'', ''to'', ''call'', ''mom'']
   \<and> ''2024-06-01'' \<noteq> ''at''
   \<and> processTranscript ''2024-05-30T08:15:00.000Z'' ''remind me to call mom on 2024-06-01 at 15:30''
       = \<lparr> date = Some ''2024-06-01'', time = Some ''15:30'',
           text = ''remind me to call mom on 2024-06-01 at 15:30'' \<rparr>"
proof -
  have s: "split (CHR '' '') ''remind me to call mom on 2024-06-01 at 15:30''
     = [''remind'', ''me'', ''to'', ''call'', ''mom''] @ [''on'', ''2024-06-01'', ''at'', ''15:30''] @ []"
    by simp
  have a: "''on'' \<notin> set [''remind'', ''me'', ''to'', ''call'', ''mom'']" by simp
  have b: "''at'' \<notin> set [''remind'', ''me'', ''to'', ''call'', ''mom'']" by simp
  have c: "''2024-06-01'' \<noteq> ''at''" by simp
  from processTranscript_on_at [OF s a b c, of "''2024-05-30T08:15:00.000Z''"] s a b c
  show ?thesis by blast
qed

text \<open>
  C1 as stated fails when an earlier token is \<^verbatim>\<open>on\<close>: the input
  \<^verbatim>\<open>turn on alarm on 2024-06-01 at 15:30\<close> contains the tokens \<^verbatim>\<open>on 2024-06-01 at 15:30\<close>,
  and its date is \<^verbatim>\<open>alarm\<close>.
\<close>

theorem processTranscript_on_at_counterexample:
  "split (CHR '' '') ''turn on alarm on 2024-06-01 at 15:30''
     = [''turn'', ''on'', ''alarm''] @ [''on'', ''2024-06-01'', ''at'', ''15:30''] @ []
   \<and> date (processTranscript ''2024-05-30T08:15:00.000Z'' ''turn on alarm on 2024-06-01 at 15:30'')
       = Some ''alarm''
   \<and> date (processTranscript ''2024-05-30T08:15:00.000Z'' ''turn on alarm on 2024-06-01 at 15:30'')
       \<noteq> Some ''2024-06-01''"
  by (simp add: processTranscript_def elem_def)

text \<open>
  C2. For an input whose tokens include neither \<^verbatim>\<open>on\<close> nor \<^verbatim>\<open>at\<close>, the date is the
  current date, the part of the clock's ISO timestamp before its \<^verbatim>\<open>T\<close>, the time is
  \<^verbatim>\<open>12:00\<close>, and the text is the verbatim input.
\<close>

theorem processTranscript_defaults:
  assumes "''on'' \<notin> set (split (CHR '' '') s)" and "''at'' \<notin> set (split (CHR '' '') s)"
  shows "processTranscript now s =
           \<lparr> date = Some (takeWhile (\<lambda>c. c \<noteq> CHR ''T'') now), time = Some ''12:00'', text = s \<rparr>"
  using assms by (simp add: processTranscript_def indexOf_absent isoDate_eq)

theorem processTranscript_defaults_witness:
  "''on'' \<notin> set (split (CHR '' '') ''buy  milk tomorrow'')
   \<and> ''at'' \<notin> set (split (CHR '' '') ''buy  milk tomorrow'')
   \<and> processTranscript ''2024-05-30T08:15:00.000Z'' ''buy  milk tomorrow'' =
       \<lparr> date = Some ''2024-05-30'', time = Some ''12:00'', text = ''buy  milk tomorrow'' \<rparr>"
proof -
  have a: "''on'' \<notin> set (split (CHR '' '') ''buy  milk tomorrow'')" by simp
  have b: "''at'' \<notin> set (split (CHR '' '') ''buy  milk tomorrow'')" by simp
  from processTranscript_defaults [OF a b, of "''2024-05-30T08:15:00.000Z''"] a b
  show ?thesis by simp
qed

text \<open>
  C3. \<^verbatim>\<open>processTranscript\<close> raises nothing, but it does not always return three strings:
  when the first \<^verbatim>\<open>at\<close> (or \<^verbatim>\<open>on\<close>) is the last token, the read one past it is out of
  range, and the time (or the date) of the draft is \<^verbatim>\<open>undefined\<close>.
\<close>

theorem processTranscript_trailing_keyword:
  "processTranscript now ''remind me at'' =
     \<lparr> date = isoDate now, time = None, text = ''remind me at'' \<rparr>"
  by (simp add: processTranscript_def elem_def)

subsection \<open>The pattern-anchored extractor\<close>

lemma timeRegex_at_sound:
  "timeRegex_at s = Some m \<Longrightarrow> is_time m \<and> (\<exists>post. s = m @ post)"
  by (induction s rule: timeRegex_at.induct) (auto split: if_splits)

lemma timeRegex_at_complete: "is_time t \<Longrightarrow> timeRegex_at (t @ post) = Some t"
proof (induction t rule: is_time.induct)
  case (1 h c m1 m2)
  then show ?case by (cases post) (auto simp: digit_def)
next
  case (2 h1 h2 c m1 m2)
  then show ?case by simp
qed simp_all

lemma time_substring_at:
  "s = pre @ t @ post \<Longrightarrow> is_time t \<Longrightarrow> timeRegex_at (drop (length pre) s) = Some t"
  by (simp add: timeRegex_at_complete)

lemma is_time_not_Nil: "is_time t \<Longrightarrow> t \<noteq> []"
  by (cases t) auto

lemma match_timeRegex_none:
  "(\<And>pre t post. s = pre @ t @ post \<Longrightarrow> \<not> is_time t) \<Longrightarrow> match_timeRegex s = None"
proof (induction s)
  case Nil
  show ?case by simp
next
  case (Cons c cs)
  have here: "timeRegex_at (c # cs) = None"
  proof (cases "timeRegex_at (c # cs)")
    case None
    then show ?thesis .
  next
    case (Some m)
    from timeRegex_at_sound [OF Some] obtain post where "is_time m" "c # cs = [] @ m @ post"
      by auto
    with Cons.prems show ?thesis by blast
  qed
  have "match_timeRegex cs = None"
  proof (rule Cons.IH)
    fix pre t post
    assume "cs = pre @ t @ post"
    then have "c # cs = (c # pre) @ t @ post" by simp
    then show "\<not> is_time t" by (rule Cons.prems)
  qed
  with here show ?case by simp
qed

lemma match_timeRegex_first:
  assumes "s = pre @ t @ post" and "is_time t"
    and "\<And>pre' t' post'. s = pre' @ t' @ post' \<Longrightarrow> is_time t' \<Longrightarrow> length pre \<le> length pre'"
  shows "match_timeRegex s = Some t"
  using assms
proof (induction pre arbitrary: s)
  case Nil
  from Nil.prems(2) have "t \<noteq> []" by (rule is_time_not_Nil)
  then obtain c cs where tc: "t @ post = c # cs" by (cases t) auto
  have "timeRegex_at (t @ post) = Some t"
    using Nil.prems(2) by (rule timeRegex_at_complete)
  then show ?case using Nil.prems(1) tc by simp
next
  case (Cons p pre)
  have s: "s = p # (pre @ t @ post)" using Cons.prems(1) by simp
  have here: "timeRegex_at s = None"
  proof (cases "timeRegex_at s")
    case None
    then show ?thesis .
  next
    case (Some m)
    from timeRegex_at_sound [OF Some] obtain post' where "is_time m" "s = [] @ m @ post'"
      by auto
    then have "length (p # pre) \<le> length ([] :: string)" by (rule Cons.prems(3) [rotated])
    then show ?thesis by simp
  qed
  have "match_timeRegex (pre @ t @ post) = Some t"
  proof (rule Cons.IH [OF refl Cons.prems(2)])
    fix pre' t' post'
    assume "pre @ t @ post = pre' @ t' @ post'" and t': "is_time t'"
    then have "s = (p # pre') @ t' @ post'" using s by simp
    then have "length (p # pre) \<le> length (p # pre')" using t' by (rule Cons.prems(3))
    then show "length pre \<le> length pre'" by simp
  qed
  with here s show ?case by simp
qed

text \<open>
  C8. The time of the draft is the first substring of the text of the form \<^verbatim>\<open>H:MM\<close> or
  \<^verbatim>\<open>HH:MM\<close> (the one that starts leftmost: at most one starts at a given position),
  and \<^verbatim>\<open>12:00\<close> when the text has no such substring. The date is the date of the
  date-phrase recogniser when it finds one, and the current date otherwise. The text is
  the verbatim input.
\<close>

theorem processNaturalLanguage_time_date:
  "(s = pre @ t @ post \<and> is_time t
      \<and> (\<forall>pre' t' post'. s = pre' @ t' @ post' \<and> is_time t' \<longrightarrow> length pre \<le> length pre')
     \<longrightarrow> time (processNaturalLanguage dateParser now s) = Some t)
   \<and> ((\<forall>pre' t' post'. s = pre' @ t' @ post' \<longrightarrow> \<not> is_time t')
     \<longrightarrow> time (processNaturalLanguage dateParser now s) = Some ''12:00'')
   \<and> date (processNaturalLanguage dateParser now s) =
       (case dateParser s of Some found \<Rightarrow> isoDate found | None \<Rightarrow> isoDate now)
   \<and> text (processNaturalLanguage dateParser now s) = s"
proof (intro conjI impI)
  assume a: "s = pre @ t @ post \<and> is_time t
      \<and> (\<forall>pre' t' post'. s = pre' @ t' @ post' \<and> is_time t' \<longrightarrow> length pre \<le> length pre')"
  have "match_timeRegex s = Some t"
    by (rule match_timeRegex_first [of s pre t post]) (use a in blast)+
  then show "time (processNaturalLanguage dateParser now s) = Some t"
    by (simp add: processNaturalLanguage_def)
next
  assume "\<forall>pre' t' post'. s = pre' @ t' @ post' \<longrightarrow> \<not> is_time t'"
  then have "match_timeRegex s = None"
    by (intro match_timeRegex_none) blast
  then show "time (processNaturalLanguage dateParser now s) = Some ''12:00''"
    by (simp add: processNaturalLanguage_def)
next
  show "date (processNaturalLanguage dateParser now s) =
       (case dateParser s of Some found \<Rightarrow> isoDate found | None \<Rightarrow> isoDate now)"
    by (simp add: processNaturalLanguage_def)
next
  show "text (processNaturalLanguage dateParser now s) = s"
    by (simp add: processNaturalLanguage_def)
qed

text \<open>
  Two instances: in \<^verbatim>\<open>at 5:30 pm\<close> the first time starts at position 3; \<^verbatim>\<open>noon\<close> holds no
  time. The date comes from the recogniser in the first and from the clock in the second.
\<close>

theorem processNaturalLanguage_time_date_witness:
  "''at 5:30 pm'' = ''at '' @ ''5:30'' @ '' pm'' \<and> is_time ''5:30''
   \<and> time (processNaturalLanguage (\<lambda>s. Some ''2024-06-01T00:00:00.000Z'')
             ''2024-05-30T08:15:00.000Z'' ''at 5:30 pm'') = Some ''5:30''
   \<and> time (processNaturalLanguage (\<lambda>s. None) ''2024-05-30T08:15:00.000Z'' ''noon'')
       = Some ''12:00''
   \<and> date (processNaturalLanguage (\<lambda>s. Some ''2024-06-01T00:00:00.000Z'')
             ''2024-05-30T08:15:00.000Z'' ''at 5:30 pm'') = Some ''2024-06-01''
   \<and> date (processNaturalLanguage (\<lambda>s. None) ''2024-05-30T08:15:00.000Z'' ''noon'')
       = Some ''2024-05-30''"
proof -
  let ?s = "''at 5:30 pm''"
  have e: "?s = ''at '' @ ''5:30'' @ '' pm''" by simp
  have t: "is_time ''5:30''" by (simp add: digit_def)
  have first: "\<forall>pre' t' post'. ?s = pre' @ t' @ post' \<and> is_time t' \<longrightarrow> length ''at '' \<le> length pre'"
  proof (intro allI impI)
    fix pre' t' post'
    assume a: "?s = pre' @ t' @ post' \<and> is_time t'"
    then have a1: "?s = pre' @ t' @ post'" and a2: "is_time t'"
      by blast+
    have m: "timeRegex_at (drop (length pre') ?s) = Some t'"
      using a1 a2 by (rule time_substring_at)
    show "length ''at '' \<le> length pre'"
    proof (rule ccontr)
      assume "\<not> length ''at '' \<le> length pre'"
      then have "length pre' < 3" by simp
      then consider "length pre' = 0" | "length pre' = 1" | "length pre' = 2"
        by arith
      then show False
        using m by cases (simp_all add: digit_def)
    qed
  qed
  have none: "\<forall>pre' t' post'. ''noon'' = pre' @ t' @ post' \<longrightarrow> \<not> is_time t'"
  proof (intro allI impI notI)
    fix pre' t' post'
    assume a: "''noon'' = pre' @ t' @ post'" and b: "is_time t'"
    have m: "timeRegex_at (drop (length pre') ''noon'') = Some t'"
      using a b by (rule time_substring_at)
    from a have "length ''noon'' = length (pre' @ t' @ post')"
      by simp
    then have "length pre' \<le> 4" by simp
    then consider "length pre' = 0" | "length pre' = 1" | "length pre' = 2"
      | "length pre' = 3" | "length pre' = 4"
      by arith
    then show False
      using m by cases (simp_all add: digit_def)
  qed
  note T1 = processNaturalLanguage_time_date
         [of ?s "''at ''" "''5:30''" "'' pm''" "\<lambda>s. Some ''2024-06-01T00:00:00.000Z''"
             "''2024-05-30T08:15:00.000Z''"]
  note T2 = processNaturalLanguage_time_date
         [of "''noon''" "[]" "[]" "[]" "\<lambda>s. None" "''2024-05-30T08:15:00.000Z''"]
  have r1: "time (processNaturalLanguage (\<lambda>s. Some ''2024-06-01T00:00:00.000Z'')
             ''2024-05-30T08:15:00.000Z'' ?s) = Some ''5:30''"
    using T1 e t first by blast
  have r2: "time (processNaturalLanguage (\<lambda>s. None) ''2024-05-30T08:15:00.000Z'' ''noon'')
       = Some ''12:00''"
    using T2 none by blast
  have r3: "date (processNaturalLanguage (\<lambda>s. Some ''2024-06-01T00:00:00.000Z'')
             ''2024-05-30T08:15:00.000Z'' ?s) = Some ''2024-06-01''"
    using conjunct1 [OF conjunct2 [OF conjunct2 [OF T1]]] by (simp add: isoDate_eq)
  have r4: "date (processNaturalLanguage (\<lambda>s. None) ''2024-05-30T08:15:00.000Z'' ''noon'')
       = Some ''2024-05-30''"
    using conjunct1 [OF conjunct2 [OF conjunct2 [OF T2]]] by (simp add: isoDate_eq)
  from e t r1 r2 r3 r4 show ?thesis by blast
qed

subsection \<open>One submit, step by step\<close>

lemma settle_new:
  "step cmp (Settle (length ps) r) \<lparr>st = u, pending = ps @ [t], calls = cs\<rparr> =
     (case resume t r u of
        None \<Rightarrow> None
      | Some (u', cs', k) \<Rightarrow>
          Some \<lparr>st = u', pending = (case k of None \<Rightarrow> ps | Some t' \<Rightarrow> ps @ [t']), calls = cs @ cs'\<rparr>)"
  by (auto split: option.splits)

lemma click_submit_App:
  "\<not> isLoading u \<Longrightarrow>
   step App (ClickSubmit now) \<lparr>st = u, pending = ps, calls = cs\<rparr> =
     Some \<lparr>st = u\<lparr>isLoading := True\<rparr>, pending = ps @ [App_addReminder (transcript u)],
           calls = cs @ [AddReminder (processTranscript now (transcript u))]\<rparr>"
  by (simp add: App_handleSubmit_def)

lemma click_submit_VCA:
  "\<not> isLoading u \<Longrightarrow>
   step (VoiceCalendarAssistant dp) (ClickSubmit now) \<lparr>st = u, pending = ps, calls = cs\<rparr> =
     Some \<lparr>st = u\<lparr>isLoading := True\<rparr>, pending = ps @ [VCA_addEvent (transcript u)],
           calls = cs @ [AddEvent (processNaturalLanguage dp now (transcript u))]\<rparr>"
  by (simp add: VCA_handleSubmit_def)

text \<open>
  C5, as the code has it. A submit is accepted when \<^verbatim>\<open>isLoading\<close> is false. When its
  store-create call, its AI query and the \<^verbatim>\<open>list()\<close> call of its reload all succeed, then
  afterwards the transcript is empty, the AI response is the responder's reply, and the
  cached list of the store written to (the reminders in \<^verbatim>\<open>App\<close>, the events in
  \<^verbatim>\<open>VoiceCalendarAssistant\<close>) is exactly the list that this \<^verbatim>\<open>list()\<close> call returned.
  Nothing else changes: the other cached list is not reloaded.
\<close>

theorem submit_succeeds:
  assumes "\<not> isLoading (st c)"
  shows "run App [ClickSubmit now, Settle (length (pending c)) Resolved,
                  Settle (length (pending c)) (ResolvedText aiResp),
                  Settle (length (pending c)) (ResolvedReminders fetched)] c =
           Some (c\<lparr>st := (st c)\<lparr>aiResponse := aiResp, reminders := fetched, transcript := '''',
                                isLoading := False\<rparr>,
                   calls := calls c @ [AddReminder (processTranscript now (transcript (st c))),
                                       GetAIResponse (transcript (st c)), GetReminders]\<rparr>)
       \<and> run (VoiceCalendarAssistant dateParser)
                 [ClickSubmit now, Settle (length (pending c)) Resolved,
                  Settle (length (pending c)) (ResolvedText aiResp),
                  Settle (length (pending c)) (ResolvedEvents fetched')] c =
           Some (c\<lparr>st := (st c)\<lparr>aiResponse := aiResp, events := fetched', transcript := '''',
                                isLoading := False\<rparr>,
                   calls := calls c @
                     [AddEvent (processNaturalLanguage dateParser now (transcript (st c))),
                      GetAIResponse (transcript (st c)), GetEvents]\<rparr>)"
proof -
  obtain u ps cs where c: "c = \<lparr>st = u, pending = ps, calls = cs\<rparr>"
    by (cases c) auto
  from assms c have u: "\<not> isLoading u" by simp
  show ?thesis
    unfolding c
    by (simp add: click_submit_App [OF u] click_submit_VCA [OF u] settle_new resume_def
        catch_finally_def del: step.simps)
qed

text \<open>An instance in each component, with a transcript to clear and a list to replace.\<close>

theorem submit_succeeds_witness:
  "\<not> isLoading (st \<lparr> st = \<lparr> isListening = True, transcript = ''call mom at 5:30'',
                             reminders = [''old''], aiResponse = '''', isLoading = False,
                             events = [''party''] \<rparr>,
                       pending = [], calls = [GetReminders] \<rparr>)
   \<and> run App [ClickSubmit ''2024-05-30T08:15:00.000Z'', Settle 0 Resolved,
              Settle 0 (ResolvedText ''Done''), Settle 0 (ResolvedReminders [''old'', ''new''])]
        \<lparr> st = \<lparr> isListening = True, transcript = ''call mom at 5:30'',
                    reminders = [''old''], aiResponse = '''', isLoading = False,
                    events = [''party''] \<rparr>,
            pending = [], calls = [GetReminders] \<rparr> =
       Some \<lparr> st = \<lparr> isListening = True, transcript = '''', reminders = [''old'', ''new''],
                      aiResponse = ''Done'', isLoading = False, events = [''party''] \<rparr>,
              pending = [],
              calls = [GetReminders,
                       AddReminder (processTranscript ''2024-05-30T08:15:00.000Z'' ''call mom at 5:30''),
                       GetAIResponse ''call mom at 5:30'', GetReminders] \<rparr>
   \<and> run (VoiceCalendarAssistant (\<lambda>s. None))
             [ClickSubmit ''2024-05-30T08:15:00.000Z'', Settle 0 Resolved,
              Settle 0 (ResolvedText ''Done''), Settle 0 (ResolvedEvents [''party'', ''new''])]
        \<lparr> st = \<lparr> isListening = True, transcript = ''call mom at 5:30'',
                    reminders = [''old''], aiResponse = '''', isLoading = False,
                    events = [''party''] \<rparr>,
            pending = [], calls = [GetReminders] \<rparr> =
       Some \<lparr> st = \<lparr> isListening = True, transcript = '''', reminders = [''old''],
                      aiResponse = ''Done'', isLoading = False, events = [''party'', ''new''] \<rparr>,
              pending = [],
              calls = [GetReminders,
                       AddEvent (processNaturalLanguage (\<lambda>s. None) ''2024-05-30T08:15:00.000Z''
                                   ''call mom at 5:30''),
                       GetAIResponse ''call mom at 5:30'', GetEvents] \<rparr>"
proof -
  let ?c = "\<lparr> st = \<lparr> isListening = True, transcript = ''call mom at 5:30'',
                    reminders = [''old''], aiResponse = '''', isLoading = False,
                    events = [''party''] \<rparr>,
            pending = [], calls = [GetReminders] \<rparr>"
  have h: "\<not> isLoading (st ?c)" by simp
  from submit_succeeds [OF h, of "''2024-05-30T08:15:00.000Z''" "''Done''" "[''old'', ''new'']"
         "\<lambda>s. None" "[''party'', ''new'']"] h
  show ?thesis by simp
qed

text \<open>
  C5 as stated fails. In \<^verbatim>\<open>App\<close>, when the store-create call and the AI query succeed
  and the \<^verbatim>\<open>getReminders()\<close> of the reload is rejected, the \<^verbatim>\<open>catch\<close> block runs: the
  transcript is kept and the AI response is the failure message, not the reply. And in
  \<^verbatim>\<open>VoiceCalendarAssistant\<close> a submit that succeeds throughout fetches the events only:
  the reminders are still the initial empty list, and the fetch started on mount is still
  pending.
\<close>

theorem submit_reload_fails_counterexample:
  "run App [ClickSubmit ''2024-05-30T08:15:00.000Z'', Settle 0 Resolved,
            Settle 0 (ResolvedText ''Done''), Settle 0 Rejected]
        (\<lparr> st = \<lparr> isListening = True, transcript = ''call mom at 5:30'',
                    reminders = [''old''], aiResponse = '''', isLoading = False,
                    events = [] \<rparr>,
            pending = [], calls = [GetReminders] \<rparr> :: (string, string) config) =
       Some \<lparr> st = \<lparr> isListening = True, transcript = ''call mom at 5:30'',
                      reminders = [''old''], aiResponse = failureMessage, isLoading = False,
                      events = [] \<rparr>,
              pending = [],
              calls = [GetReminders,
                       AddReminder (processTranscript ''2024-05-30T08:15:00.000Z'' ''call mom at 5:30''),
                       GetAIResponse ''call mom at 5:30'', GetReminders] \<rparr>
   \<and> ''call mom at 5:30'' \<noteq> ''''
   \<and> failureMessage \<noteq> ''Done''
   \<and> run (VoiceCalendarAssistant (\<lambda>s. None))
          [ClickSubmit ''2024-05-30T08:15:00.000Z'', Settle 1 Resolved,
           Settle 1 (ResolvedText ''Done''), Settle 1 (ResolvedEvents [''party''])]
          (mounted :: (string, string) config) =
       Some \<lparr> st = \<lparr> isListening = False, transcript = '''', reminders = [],
                      aiResponse = ''Done'', isLoading = False, events = [''party''] \<rparr>,
              pending = [LoadReminders],
              calls = [GetReminders,
                       AddEvent (processNaturalLanguage (\<lambda>s. None) ''2024-05-30T08:15:00.000Z'' ''''),
                       GetAIResponse '''', GetEvents] \<rparr>"
  by (simp add: mounted_def App_handleSubmit_def VCA_handleSubmit_def resume_def
      catch_finally_def failureMessage_def)

text \<open>
  C6. When the store-create call of an accepted submit fails, then afterwards the
  transcript and the cached lists are as before, the AI response is the fixed failure
  message, \<^verbatim>\<open>isLoading\<close> is false again, and the store-create call is the only call made:
  no reload is attempted. The handler ends normally.
\<close>

theorem submit_create_fails:
  assumes "\<not> isLoading (st c)"
  shows "run App [ClickSubmit now, Settle (length (pending c)) Rejected] c =
           Some (c\<lparr>st := (st c)\<lparr>aiResponse := failureMessage, isLoading := False\<rparr>,
                   calls := calls c @ [AddReminder (processTranscript now (transcript (st c)))]\<rparr>)
       \<and> run (VoiceCalendarAssistant dateParser) [ClickSubmit now, Settle (length (pending c)) Rejected] c =
           Some (c\<lparr>st := (st c)\<lparr>aiResponse := failureMessage, isLoading := False\<rparr>,
                   calls := calls c @
                     [AddEvent (processNaturalLanguage dateParser now (transcript (st c)))]\<rparr>)"
proof -
  obtain u ps cs where c: "c = \<lparr>st = u, pending = ps, calls = cs\<rparr>"
    by (cases c) auto
  from assms c have u: "\<not> isLoading u" by simp
  show ?thesis
    unfolding c
    by (simp add: click_submit_App [OF u] click_submit_VCA [OF u] settle_new resume_def
        catch_finally_def del: step.simps)
qed

text \<open>An instance in each component.\<close>

theorem submit_create_fails_witness:
  "\<not> isLoading (st (\<lparr> st = \<lparr> isListening = True, transcript = ''call mom at 5:30'',
                             reminders = [''old''], aiResponse = '''', isLoading = False,
                             events = [''party''] \<rparr>,
                       pending = [], calls = [GetReminders] \<rparr> :: (string, string) config))
   \<and> run App [ClickSubmit ''2024-05-30T08:15:00.000Z'', Settle 0 Rejected]
        (\<lparr> st = \<lparr> isListening = True, transcript = ''call mom at 5:30'',
                    reminders = [''old''], aiResponse = '''', isLoading = False,
                    events = [''party''] \<rparr>,
            pending = [], calls = [GetReminders] \<rparr> :: (string, string) config) =
       Some \<lparr> st = \<lparr> isListening = True, transcript = ''call mom at 5:30'',
                      reminders = [''old''], aiResponse = failureMessage, isLoading = False,
                      events = [''party''] \<rparr>,
              pending = [],
              calls = [GetReminders,
                       AddReminder (processTranscript ''2024-05-30T08:15:00.000Z'' ''call mom at 5:30'')] \<rparr>
   \<and> run (VoiceCalendarAssistant (\<lambda>s. None))
             [ClickSubmit ''2024-05-30T08:15:00.000Z'', Settle 0 Rejected]
        (\<lparr> st = \<lparr> isListening = True, transcript = ''call mom at 5:30'',
                    reminders = [''old''], aiResponse = '''', isLoading = False,
                    events = [''party''] \<rparr>,
            pending = [], calls = [GetReminders] \<rparr> :: (string, string) config) =
       Some \<lparr> st = \<lparr> isListening = True, transcript = ''call mom at 5:30'',
                      reminders = [''old''], aiResponse = failureMessage, isLoading = False,
                      events = [''party''] \<rparr>,
              pending = [],
              calls = [GetReminders,
                       AddEvent (processNaturalLanguage (\<lambda>s. None) ''2024-05-30T08:15:00.000Z''
                                   ''call mom at 5:30'')] \<rparr>"
proof -
  let ?c = "(\<lparr> st = \<lparr> isListening = True, transcript = ''call mom at 5:30'',
                    reminders = [''old''], aiResponse = '''', isLoading = False,
                    events = [''party''] \<rparr>,
            pending = [], calls = [GetReminders] \<rparr> :: (string, string) config)"
  have h: "\<not> isLoading (st ?c)" by simp
  from submit_create_fails [OF h, of "''2024-05-30T08:15:00.000Z''" "\<lambda>s. None"] h
  show ?thesis by simp
qed

lemma run_query_fails:
  assumes "\<not> isLoading (st c)"
  shows "run App [ClickSubmit now, Settle (length (pending c)) Resolved,
                  Settle (length (pending c)) Rejected] c =
           Some (c\<lparr>st := (st c)\<lparr>aiResponse := failureMessage, isLoading := False\<rparr>,
                   calls := calls c @ [AddReminder (processTranscript now (transcript (st c))),
                                       GetAIResponse (transcript (st c))]\<rparr>)
       \<and> run (VoiceCalendarAssistant dateParser)
                 [ClickSubmit now, Settle (length (pending c)) Resolved,
                  Settle (length (pending c)) Rejected] c =
           Some (c\<lparr>st := (st c)\<lparr>aiResponse := failureMessage, isLoading := False\<rparr>,
                   calls := calls c @
                     [AddEvent (processNaturalLanguage dateParser now (transcript (st c))),
                      GetAIResponse (transcript (st c))]\<rparr>)"
proof -
  obtain u ps cs where c: "c = \<lparr>st = u, pending = ps, calls = cs\<rparr>"
    by (cases c) auto
  from assms c have u: "\<not> isLoading u" by simp
  show ?thesis
    unfolding c
    by (simp add: click_submit_App [OF u] click_submit_VCA [OF u] settle_new resume_def
        catch_finally_def del: step.simps)
qed

text \<open>
  C10. When the store-create call of an accepted submit succeeds and its AI query fails,
  the failure path is taken: the transcript and the cached lists are as before, the AI
  response is the failure message, and the calls made are the create and the query, with
  no reload and no call that undoes the create. So for any store in which a create shows
  in the listing, a cached list that agreed with the store before the submit differs from
  the store's listing after it. The store is a parameter: its state, its listing and its
  create.
\<close>

theorem submit_query_fails:
  assumes "\<not> isLoading (st c)"
  shows "(\<exists>c'. run App [ClickSubmit now, Settle (length (pending c)) Resolved,
                        Settle (length (pending c)) Rejected] c = Some c'
            \<and> st c' = (st c)\<lparr>aiResponse := failureMessage, isLoading := False\<rparr>
            \<and> pending c' = pending c
            \<and> calls c' = calls c @ [AddReminder (processTranscript now (transcript (st c))),
                                     GetAIResponse (transcript (st c))]
            \<and> (reminders (st c) = listReminders rs
                 \<and> listReminders (createReminder (processTranscript now (transcript (st c))) rs)
                     \<noteq> listReminders rs
               \<longrightarrow> reminders (st c')
                     \<noteq> listReminders (createReminder (processTranscript now (transcript (st c))) rs)))
       \<and> (\<exists>c'. run (VoiceCalendarAssistant dateParser)
                       [ClickSubmit now, Settle (length (pending c)) Resolved,
                        Settle (length (pending c)) Rejected] c = Some c'
            \<and> st c' = (st c)\<lparr>aiResponse := failureMessage, isLoading := False\<rparr>
            \<and> pending c' = pending c
            \<and> calls c' = calls c @
                 [AddEvent (processNaturalLanguage dateParser now (transcript (st c))),
                  GetAIResponse (transcript (st c))]
            \<and> (events (st c) = listEvents es
                 \<and> listEvents (createEvent (processNaturalLanguage dateParser now (transcript (st c))) es)
                     \<noteq> listEvents es
               \<longrightarrow> events (st c')
                     \<noteq> listEvents (createEvent (processNaturalLanguage dateParser now (transcript (st c))) es)))"
proof -
  note r = run_query_fails [OF assms, of now dateParser]
  show ?thesis
    by (simp only: r) auto
qed

text \<open>
  An instance in \<^verbatim>\<open>App\<close>, with a store that is the list of its texts and appends the text
  of a new draft: the cache still holds the one old text.
\<close>

theorem submit_query_fails_witness:
  "\<not> isLoading (st (\<lparr> st = \<lparr> isListening = True, transcript = ''call mom at 5:30'',
                             reminders = [''old''], aiResponse = '''', isLoading = False,
                             events = [''party''] \<rparr>,
                       pending = [], calls = [GetReminders] \<rparr> :: (string, string) config))
   \<and> run App [ClickSubmit ''2024-05-30T08:15:00.000Z'', Settle 0 Resolved, Settle 0 Rejected]
        (\<lparr> st = \<lparr> isListening = True, transcript = ''call mom at 5:30'',
                    reminders = [''old''], aiResponse = '''', isLoading = False,
                    events = [''party''] \<rparr>,
            pending = [], calls = [GetReminders] \<rparr> :: (string, string) config) =
       Some \<lparr> st = \<lparr> isListening = True, transcript = ''call mom at 5:30'',
                      reminders = [''old''], aiResponse = failureMessage, isLoading = False,
                      events = [''party''] \<rparr>,
              pending = [],
              calls = [GetReminders,
                       AddReminder (processTranscript ''2024-05-30T08:15:00.000Z'' ''call mom at 5:30''),
                       GetAIResponse ''call mom at 5:30''] \<rparr>
   \<and> [''old''] \<noteq>
       [''old''] @ [text (processTranscript ''2024-05-30T08:15:00.000Z'' ''call mom at 5:30'')]"
proof -
  let ?c = "(\<lparr> st = \<lparr> isListening = True, transcript = ''call mom at 5:30'',
                    reminders = [''old''], aiResponse = '''', isLoading = False,
                    events = [''party''] \<rparr>,
            pending = [], calls = [GetReminders] \<rparr> :: (string, string) config)"
  let ?d = "processTranscript ''2024-05-30T08:15:00.000Z'' ''call mom at 5:30''"
  have h: "\<not> isLoading (st ?c)" by simp
  note T = submit_query_fails [OF h, of "''2024-05-30T08:15:00.000Z''"
             "\<lambda>s. s" "[''old'']" "\<lambda>d s. s @ [text d]"
             "\<lambda>s. None" "\<lambda>s. s" "[''party'']" "\<lambda>d s. s @ [text d]"]
  from T h show ?thesis
    by (simp add: App_handleSubmit_def VCA_handleSubmit_def resume_def catch_finally_def
        processTranscript_text)
qed

subsection \<open>The space key\<close>

text \<open>
  C7, as the code has it. \<^verbatim>\<open>handleKeyPress\<close> reads \<^verbatim>\<open>event.code\<close> only: a key press
  toggles listening if and only if it is the space key, whether a text input has the
  focus or not.
\<close>

theorem space_toggles_whatever_focus:
  "(isListening (fst (handleKeyPress ev u)) \<noteq> isListening u) = (code ev = ''Space'')
   \<and> snd (handleKeyPress ev u) =
       (if code ev = ''Space''
        then [if isListening u then Recognition_stop else Recognition_start] else [])
   \<and> handleKeyPress (ev\<lparr>inputFocused := focused\<rparr>) u = handleKeyPress ev u"
  by (simp add: handleKeyPress_def toggleListening_def)

text \<open>
  C7 as stated fails: a space typed into a focused input starts listening.
\<close>

theorem space_in_input_counterexample:
  "inputFocused \<lparr>code = ''Space'', inputFocused = True\<rparr>
   \<and> \<not> isListening (st mounted)
   \<and> step App (KeyDown \<lparr>code = ''Space'', inputFocused = True\<rparr>) mounted =
       Some (mounted\<lparr>st := (st mounted)\<lparr>isListening := True\<rparr>,
                      calls := [GetReminders, Recognition_start]\<rparr>)"
  by (simp add: mounted_def handleKeyPress_def toggleListening_def)

subsection \<open>The re-entry guard of submit\<close>

lemma count_update:
  "i < length xs \<Longrightarrow>
   length (filter P (xs[i := y])) + (if P (xs ! i) then 1 else 0) =
   length (filter P xs) + (if P y then 1 else 0)"
proof -
  assume i: "i < length xs"
  have a: "xs = take i xs @ xs ! i # drop (Suc i) xs"
    using i by (rule id_take_nth_drop)
  have b: "xs[i := y] = take i xs @ y # drop (Suc i) xs"
    using i by (rule upd_conv_take_nth_drop)
  have "length (filter P xs) =
        length (filter P (take i xs)) + (if P (xs ! i) then 1 else 0) + length (filter P (drop (Suc i) xs))"
    by (subst a) simp
  moreover have "length (filter P (xs[i := y])) =
        length (filter P (take i xs)) + (if P y then 1 else 0) + length (filter P (drop (Suc i) xs))"
    by (subst b) simp
  ultimately show ?thesis by simp
qed

lemma count_remove:
  "i < length xs \<Longrightarrow>
   length (filter P (take i xs @ drop (Suc i) xs)) + (if P (xs ! i) then 1 else 0) =
   length (filter P xs)"
proof -
  assume i: "i < length xs"
  have a: "xs = take i xs @ xs ! i # drop (Suc i) xs"
    using i by (rule id_take_nth_drop)
  have "length (filter P xs) =
        length (filter P (take i xs)) + (if P (xs ! i) then 1 else 0) + length (filter P (drop (Suc i) xs))"
    by (subst a) simp
  then show ?thesis by simp
qed

lemma count_settle:
  "i < length ps \<Longrightarrow>
   length (filter P (case k of None \<Rightarrow> take i ps @ drop (Suc i) ps | Some t' \<Rightarrow> ps[i := t']))
     + (if P (ps ! i) then 1 else 0) =
   length (filter P ps) + (case k of None \<Rightarrow> 0 | Some t' \<Rightarrow> if P t' then 1 else 0)"
proof (cases k)
  case None
  assume "i < length ps"
  from count_remove [OF this, of P] None show ?thesis by simp
next
  case (Some t')
  assume "i < length ps"
  from count_update [OF this, of P t'] Some show ?thesis by simp
qed

lemma awaits_create_le_submit:
  "length (filter awaits_create ps) \<le> length (filter is_submit ps)"
  by (induction ps) (auto simp: awaits_create_def is_submit_def split: task.splits)

lemma resume_no_create:
  "resume t r u = Some (u', cs, k) \<Longrightarrow> filter is_create cs = []"
  by (auto simp: resume_def is_create_def split: task.splits reply.splits)

lemma resume_queries:
  "resume t r u = Some (u', cs, k) \<Longrightarrow>
   length (filter is_query cs) + (case k of None \<Rightarrow> 0 | Some t' \<Rightarrow> if awaits_create t' then 1 else 0)
     \<le> (if awaits_create t then 1 else 0)"
  by (auto simp: resume_def is_query_def awaits_create_def split: task.splits reply.splits)

lemma resume_submit:
  "resume t r u = Some (u', cs, k) \<Longrightarrow> is_submit t \<Longrightarrow>
   (case k of None \<Rightarrow> \<not> isLoading u' | Some t' \<Rightarrow> is_submit t' \<and> isLoading u' = isLoading u)"
  by (auto simp: resume_def is_submit_def catch_finally_def split: task.splits reply.splits)

lemma resume_other:
  "resume t r u = Some (u', cs, k) \<Longrightarrow> \<not> is_submit t \<Longrightarrow>
   isLoading u' = isLoading u \<and> (case k of None \<Rightarrow> True | Some t' \<Rightarrow> \<not> is_submit t')"
  by (auto simp: resume_def is_submit_def split: task.splits reply.splits)

lemma settle_inv:
  assumes s: "step cmp (Settle i r) c = Some c'" and g: "guard_inv c"
  shows "guard_inv c'
       \<and> length (filter is_create (calls c')) = length (filter is_create (calls c))
       \<and> length (filter is_query (calls c')) + length (filter awaits_create (pending c'))
           \<le> length (filter is_query (calls c)) + length (filter awaits_create (pending c))"
proof -
  from s have i: "i < length (pending c)" by (simp split: if_splits)
  from s i obtain u cs k where r: "resume (pending c ! i) r (st c) = Some (u, cs, k)"
    by (auto split: option.splits)
  let ?ps' = "case k of None \<Rightarrow> take i (pending c) @ drop (Suc i) (pending c)
              | Some t' \<Rightarrow> (pending c)[i := t']"
  from s i r have c': "st c' = u" "pending c' = ?ps'" "calls c' = calls c @ cs"
    by auto
  let ?t = "pending c ! i"
  have A: "length (filter is_submit ?ps') + (if is_submit ?t then 1 else 0) =
           length (filter is_submit (pending c)) + (case k of None \<Rightarrow> 0 | Some t' \<Rightarrow> if is_submit t' then 1 else 0)"
    using i by (rule count_settle)
  have B: "length (filter awaits_create ?ps') + (if awaits_create ?t then 1 else 0) =
           length (filter awaits_create (pending c)) + (case k of None \<Rightarrow> 0 | Some t' \<Rightarrow> if awaits_create t' then 1 else 0)"
    using i by (rule count_settle)
  note C = resume_no_create [OF r]
  note Q = resume_queries [OF r]
  from g have I1: "length (filter is_submit (pending c)) = (if isLoading (st c) then 1 else 0)"
    by (simp add: guard_inv_def)
  have J1: "length (filter is_submit ?ps') = (if isLoading u then 1 else 0)"
  proof (cases "is_submit ?t")
    case True
    from resume_submit [OF r True] A I1 True show ?thesis
      by (cases k) (auto split: if_splits)
  next
    case False
    from resume_other [OF r False] A I1 False show ?thesis
      by (cases k) (auto split: if_splits)
  qed
  have J2: "length (filter is_query (calls c @ cs)) + length (filter awaits_create ?ps')
          \<le> length (filter is_query (calls c)) + length (filter awaits_create (pending c))"
    using B Q by (cases k) (auto split: if_splits)
  show ?thesis
    using J1 J2 C by (simp add: guard_inv_def c')
qed

lemma step_inv:
  assumes s: "step cmp ev c = Some c'" and g: "guard_inv c"
  shows "guard_inv c'
       \<and> length (filter is_create (calls c')) = length (filter is_create (calls c)) + accepts ev c
       \<and> length (filter is_query (calls c')) + length (filter awaits_create (pending c'))
           \<le> length (filter is_query (calls c)) + length (filter awaits_create (pending c))
               + accepts ev c"
proof (cases ev)
  case (Settle i r)
  with settle_inv [of cmp i r c c'] s g show ?thesis by (simp add: accepts_def)
next
  case (ClickSubmit now)
  with s g show ?thesis
    by (cases cmp)
      (auto simp: guard_inv_def accepts_def App_handleSubmit_def VCA_handleSubmit_def is_submit_def
        awaits_create_def is_create_def is_query_def split: if_splits)
next
  case (KeyDown kev)
  with s g show ?thesis
    by (auto simp: guard_inv_def accepts_def handleKeyPress_def toggleListening_def is_create_def
        is_query_def split: if_splits)
next
  case ClickToggle
  with s g show ?thesis
    by (auto simp: guard_inv_def accepts_def toggleListening_def is_create_def is_query_def
        split: if_splits)
next
  case (InputChange v)
  with s g show ?thesis by (auto simp: guard_inv_def accepts_def)
next
  case (SpeechResult v)
  with s g show ?thesis by (auto simp: guard_inv_def accepts_def)
next
  case (SubmitEditReminder rid data)
  with s g show ?thesis
    by (auto simp: guard_inv_def accepts_def is_submit_def awaits_create_def is_create_def is_query_def)
next
  case (ClickDeleteReminder rid)
  with s g show ?thesis
    by (auto simp: guard_inv_def accepts_def is_submit_def awaits_create_def is_create_def is_query_def)
next
  case (SubmitEditEvent eid data)
  with s g show ?thesis
    by (cases cmp)
      (auto simp: guard_inv_def accepts_def is_submit_def awaits_create_def is_create_def is_query_def)
next
  case (ClickDeleteEvent eid)
  with s g show ?thesis
    by (cases cmp)
      (auto simp: guard_inv_def accepts_def is_submit_def awaits_create_def is_create_def is_query_def)
qed

lemma run_inv:
  "run cmp evs c = Some c' \<Longrightarrow> guard_inv c \<Longrightarrow>
   guard_inv c'
   \<and> length (filter is_create (calls c')) = length (filter is_create (calls c)) + accepted cmp evs c
   \<and> length (filter is_query (calls c')) + length (filter awaits_create (pending c'))
       \<le> length (filter is_query (calls c)) + length (filter awaits_create (pending c))
           + accepted cmp evs c"
proof (induction evs arbitrary: c)
  case Nil
  then show ?case by simp
next
  case (Cons ev evs)
  from Cons.prems(1) obtain c1 where s: "step cmp ev c = Some c1" and r: "run cmp evs c1 = Some c'"
    by (auto split: option.splits)
  note S = step_inv [OF s Cons.prems(2)]
  from S have i1: "guard_inv c1" by simp
  note R = Cons.IH [OF r i1]
  from S R s show ?case by simp
qed

lemma guard_inv_mounted: "guard_inv mounted"
  by (simp add: guard_inv_def mounted_def is_submit_def)

lemma idle_no_create_pending:
  assumes "guard_inv c" and "\<not> isLoading (st c)"
  shows "length (filter awaits_create (pending c)) = 0"
proof -
  from assms have "length (filter is_submit (pending c)) = 0"
    by (simp add: guard_inv_def)
  with awaits_create_le_submit [of "pending c"] show ?thesis by simp
qed

text \<open>
  C4. In every configuration \<open>c\<close> that a run reaches from the mounted component: at most
  one submit pipeline is in flight, and one is in flight exactly when \<^verbatim>\<open>isLoading\<close>
  holds; in that state a click on the submit button changes nothing and makes no call.
  And over any stretch of a run, from a reached configuration \<open>c0\<close> to \<open>c\<close>, the
  store-create calls made are as many as the submits accepted in it, and, when no submit
  is in flight at \<open>c0\<close>, the AI queries made are at most as many: a stretch with one
  accepted submit has one store-create call and at most one AI query.
\<close>

theorem resubmit_ignored:
  assumes "run cmp evs0 mounted = Some c0" and "run cmp evs c0 = Some c"
  shows "length (filter is_submit (pending c)) = (if isLoading (st c) then 1 else 0)
       \<and> (isLoading (st c) \<longrightarrow> step cmp (ClickSubmit now) c = Some c)
       \<and> length (filter is_create (calls c)) =
           length (filter is_create (calls c0)) + accepted cmp evs c0
       \<and> (\<not> isLoading (st c0) \<longrightarrow>
           length (filter is_query (calls c)) \<le>
             length (filter is_query (calls c0)) + accepted cmp evs c0)"
proof -
  from run_inv [OF assms(1) guard_inv_mounted] have g0: "guard_inv c0" by simp
  note R = run_inv [OF assms(2) g0]
  from R have g: "guard_inv c" by simp
  have q: "length (filter is_query (calls c)) \<le>
             length (filter is_query (calls c0)) + accepted cmp evs c0"
    if "\<not> isLoading (st c0)"
    using R idle_no_create_pending [OF g0 that] by simp
  from g R q show ?thesis by (simp add: guard_inv_def)
qed

text \<open>
  An instance: a transcript is typed and submit is clicked twice. The second click is
  ignored, and so is a third: one pipeline is pending, with one store-create call.
\<close>

theorem resubmit_ignored_witness:
  "run App [InputChange ''call mom''] (mounted :: (string, string) config) =
     Some \<lparr> st = \<lparr> isListening = False, transcript = ''call mom'', reminders = [],
                    aiResponse = '''', isLoading = False, events = [] \<rparr>,
            pending = [LoadReminders], calls = [GetReminders] \<rparr>
   \<and> run App [ClickSubmit ''2024-05-30T08:15:00.000Z'', ClickSubmit ''2024-05-30T08:16:00.000Z'']
        (\<lparr> st = \<lparr> isListening = False, transcript = ''call mom'', reminders = [],
                    aiResponse = '''', isLoading = False, events = [] \<rparr>,
            pending = [LoadReminders], calls = [GetReminders] \<rparr> :: (string, string) config) =
     Some \<lparr> st = \<lparr> isListening = False, transcript = ''call mom'', reminders = [],
                    aiResponse = '''', isLoading = True, events = [] \<rparr>,
            pending = [LoadReminders, App_addReminder ''call mom''],
            calls = [GetReminders,
                     AddReminder (processTranscript ''2024-05-30T08:15:00.000Z'' ''call mom'')] \<rparr>
   \<and> step App (ClickSubmit ''2024-05-30T08:17:00.000Z'')
        (\<lparr> st = \<lparr> isListening = False, transcript = ''call mom'', reminders = [],
                    aiResponse = '''', isLoading = True, events = [] \<rparr>,
            pending = [LoadReminders, App_addReminder ''call mom''],
            calls = [GetReminders,
                     AddReminder (processTranscript ''2024-05-30T08:15:00.000Z'' ''call mom'')] \<rparr>
          :: (string, string) config) =
     Some \<lparr> st = \<lparr> isListening = False, transcript = ''call mom'', reminders = [],
                    aiResponse = '''', isLoading = True, events = [] \<rparr>,
            pending = [LoadReminders, App_addReminder ''call mom''],
            calls = [GetReminders,
                     AddReminder (processTranscript ''2024-05-30T08:15:00.000Z'' ''call mom'')] \<rparr>
   \<and> accepted App
        [ClickSubmit ''2024-05-30T08:15:00.000Z'', ClickSubmit ''2024-05-30T08:16:00.000Z'']
        (\<lparr> st = \<lparr> isListening = False, transcript = ''call mom'', reminders = [],
                    aiResponse = '''', isLoading = False, events = [] \<rparr>,
            pending = [LoadReminders], calls = [GetReminders] \<rparr> :: (string, string) config) = 1"
proof -
  let ?evs = "[ClickSubmit ''2024-05-30T08:15:00.000Z'', ClickSubmit ''2024-05-30T08:16:00.000Z'']
              :: (string, string) event list"
  let ?idle = "(\<lparr> st = \<lparr> isListening = False, transcript = ''call mom'', reminders = [],
                    aiResponse = '''', isLoading = False, events = [] \<rparr>,
            pending = [LoadReminders], calls = [GetReminders] \<rparr> :: (string, string) config)"
  let ?busy = "(\<lparr> st = \<lparr> isListening = False, transcript = ''call mom'', reminders = [],
                    aiResponse = '''', isLoading = True, events = [] \<rparr>,
            pending = [LoadReminders, App_addReminder ''call mom''],
            calls = [GetReminders,
                     AddReminder (processTranscript ''2024-05-30T08:15:00.000Z'' ''call mom'')] \<rparr>
            :: (string, string) config)"
  have r0: "run App [InputChange ''call mom''] mounted = Some ?idle"
    by (simp add: mounted_def)
  have r: "run App ?evs ?idle = Some ?busy"
    by (simp add: App_handleSubmit_def)
  note T = resubmit_ignored [OF r0 r, of "''2024-05-30T08:17:00.000Z''"]
  have l: "isLoading (st ?busy)" by simp
  from T l have s: "step App (ClickSubmit ''2024-05-30T08:17:00.000Z'') ?busy = Some ?busy"
    by blast
  have e: "length (filter is_create (calls ?busy)) =
           length (filter is_create (calls ?idle)) + accepted App ?evs ?idle"
    by (rule conjunct1 [OF conjunct2 [OF conjunct2 [OF T]]])
  have n: "length (filter is_create (calls ?busy)) = 1" "length (filter is_create (calls ?idle)) = 0"
    by (simp_all add: is_create_def)
  from e have a: "accepted App ?evs ?idle = 1"
    unfolding n by simp
  from r0 r s a show ?thesis by blast
qed

subsection \<open>The cached lists\<close>

lemma resume_reminders:
  "resume t r u = Some (u', cs, k) \<Longrightarrow>
   reminders u' =
     (case r of ResolvedReminders xs \<Rightarrow> if awaits_getReminders t then xs else reminders u
      | _ \<Rightarrow> reminders u)"
  by (auto simp: resume_def awaits_getReminders_def catch_finally_def
      split: task.splits reply.splits)

lemma resume_events:
  "resume t r u = Some (u', cs, k) \<Longrightarrow>
   events u' =
     (case r of ResolvedEvents ys \<Rightarrow> if awaits_getEvents t then ys else events u
      | _ \<Rightarrow> events u)"
  by (auto simp: resume_def awaits_getEvents_def catch_finally_def
      split: task.splits reply.splits)

lemma step_reminders:
  assumes "step cmp ev c = Some c'"
  shows "reminders (st c') = (case fetch_reminders ev c of Some ys \<Rightarrow> ys | None \<Rightarrow> reminders (st c))"
proof (cases ev)
  case (Settle i r)
  with assms have i: "i < length (pending c)" by (simp split: if_splits)
  with assms Settle obtain u cs k where r: "resume (pending c ! i) r (st c) = Some (u, cs, k)"
    and u: "st c' = u"
    by (auto split: option.splits)
  from resume_reminders [OF r] u i Settle show ?thesis
    by (simp add: fetch_reminders_def split: reply.splits)
next
  case (ClickSubmit now)
  with assms show ?thesis
    by (cases cmp)
      (auto simp: fetch_reminders_def App_handleSubmit_def VCA_handleSubmit_def split: if_splits)
next
  case (SubmitEditEvent eid data)
  with assms show ?thesis by (cases cmp) (auto simp: fetch_reminders_def)
next
  case (ClickDeleteEvent eid)
  with assms show ?thesis by (cases cmp) (auto simp: fetch_reminders_def)
qed (use assms in \<open>auto simp: fetch_reminders_def handleKeyPress_def toggleListening_def split: if_splits\<close>)

lemma step_events:
  assumes "step cmp ev c = Some c'"
  shows "events (st c') = (case fetch_events ev c of Some ys \<Rightarrow> ys | None \<Rightarrow> events (st c))"
proof (cases ev)
  case (Settle i r)
  with assms have i: "i < length (pending c)" by (simp split: if_splits)
  with assms Settle obtain u cs k where r: "resume (pending c ! i) r (st c) = Some (u, cs, k)"
    and u: "st c' = u"
    by (auto split: option.splits)
  from resume_events [OF r] u i Settle show ?thesis
    by (simp add: fetch_events_def split: reply.splits)
next
  case (ClickSubmit now)
  with assms show ?thesis
    by (cases cmp)
      (auto simp: fetch_events_def App_handleSubmit_def VCA_handleSubmit_def split: if_splits)
next
  case (SubmitEditEvent eid data)
  with assms show ?thesis by (cases cmp) (auto simp: fetch_events_def)
next
  case (ClickDeleteEvent eid)
  with assms show ?thesis by (cases cmp) (auto simp: fetch_events_def)
qed (use assms in \<open>auto simp: fetch_events_def handleKeyPress_def toggleListening_def split: if_splits\<close>)

lemma run_reminders:
  "run cmp evs c = Some c' \<Longrightarrow> reminders (st c') = last_reminders cmp evs c (reminders (st c))"
proof (induction evs arbitrary: c)
  case Nil
  then show ?case by simp
next
  case (Cons ev evs)
  from Cons.prems obtain c1 where s: "step cmp ev c = Some c1" and r: "run cmp evs c1 = Some c'"
    by (auto split: option.splits)
  from Cons.IH [OF r] step_reminders [OF s] s show ?case by simp
qed

lemma run_events:
  "run cmp evs c = Some c' \<Longrightarrow> events (st c') = last_events cmp evs c (events (st c))"
proof (induction evs arbitrary: c)
  case Nil
  then show ?case by simp
next
  case (Cons ev evs)
  from Cons.prems obtain c1 where s: "step cmp ev c = Some c1" and r: "run cmp evs c1 = Some c'"
    by (auto split: option.splits)
  from Cons.IH [OF r] step_events [OF s] s show ?case by simp
qed

text \<open>
  C9. In every configuration that a run reaches from the mounted component, each cached
  list is the full list returned by the last successful fetch of its store in the run
  (the initial empty list while the run has none): a cached list is only ever replaced
  as a whole, by the result of \<^verbatim>\<open>getReminders()\<close> or \<^verbatim>\<open>getEvents()\<close>.
\<close>

theorem cached_lists_are_snapshots:
  assumes "run cmp evs mounted = Some c"
  shows "reminders (st c) = last_reminders cmp evs mounted []
       \<and> events (st c) = last_events cmp evs mounted []"
  using run_reminders [OF assms] run_events [OF assms] by (simp add: mounted_def)

text \<open>
  An instance: the fetch of the mount returns two reminders, one is deleted, and the
  reload returns the other.
\<close>

theorem cached_lists_are_snapshots_witness:
  "run App [Settle 0 (ResolvedReminders [''a'', ''b'']), ClickDeleteReminder ''1'',
            Settle 0 Resolved, Settle 0 (ResolvedReminders [''b''])]
       (mounted :: (string, string) config) =
     Some \<lparr> st = \<lparr> isListening = False, transcript = '''', reminders = [''b''],
                    aiResponse = '''', isLoading = False, events = [] \<rparr>,
            pending = [],
            calls = [GetReminders, DeleteReminder ''1'', GetReminders] \<rparr>
   \<and> last_reminders App [Settle 0 (ResolvedReminders [''a'', ''b'']), ClickDeleteReminder ''1'',
            Settle 0 Resolved, Settle 0 (ResolvedReminders [''b''])]
       (mounted :: (string, string) config) [] = [''b'']
   \<and> last_events App [Settle 0 (ResolvedReminders [''a'', ''b'']), ClickDeleteReminder ''1'',
            Settle 0 Resolved, Settle 0 (ResolvedReminders [''b''])]
       (mounted :: (string, string) config) [] = []"
proof -
  let ?evs = "[Settle 0 (ResolvedReminders [''a'', ''b'']), ClickDeleteReminder ''1'',
            Settle 0 Resolved, Settle 0 (ResolvedReminders [''b''])] :: (string, string) event list"
  let ?c = "(\<lparr> st = \<lparr> isListening = False, transcript = '''', reminders = [''b''],
                    aiResponse = '''', isLoading = False, events = [] \<rparr>,
            pending = [],
            calls = [GetReminders, DeleteReminder ''1'', GetReminders] \<rparr> :: (string, string) config)"
  have r: "run App ?evs mounted = Some ?c"
    by (simp add: mounted_def resume_def)
  note T = cached_lists_are_snapshots [OF r]
  have a: "last_reminders App ?evs mounted [] = [''b'']"
    using conjunct1 [OF T] by simp
  have b: "last_events App ?evs mounted [] = ([] :: string list)"
    using conjunct2 [OF T] by simp
  from r a b show ?thesis by blast
qed

end
